theory Spec2Isabelle
  imports Complex_Main
begin

section \<open>Invoice OCR pipeline: arbitration, total extraction, normalisation, structuring\<close>

text \<open>
  Python's \<open>str\<close> is modelled by \<open>string\<close>, one \<open>char\<close> per code point, for texts whose
  code points lie in U+0000..U+00FF (so \<open>CHR 0xA0\<close> is the no-break space and \<open>CHR 0xE0\<close> is
  a-grave). On that range the character classes below are the ones of Python 3: \<open>\d\<close> is
  0-9, \<open>\s\<close> and \<open>str.lower\<close> are as tabulated. The euro sign U+20AC lies outside the range,
  so the alternatives of the source's patterns that name it can match no modelled text and
  are left out where noted.

  Python's \<open>float\<close> is modelled by \<open>real\<close> (with the two infinities and NaN added where
  \<open>float()\<close> can produce them): binary rounding is not modelled, and every number that the
  statements below evaluate is a short decimal, which \<open>float\<close> and \<open>str\<close> round-trip.
\<close>

subsection \<open>Characters and strings\<close>

definition is_digit :: "char \<Rightarrow> bool" where
  \<comment> \<open>the class \<open>\d\<close>\<close>
  "is_digit c = (c \<in> set ''0123456789'')"

definition is_space :: "char \<Rightarrow> bool" where
  \<comment> \<open>the class \<open>\s\<close>\<close>
  "is_space c = (c \<in> set [CHR 0x09, CHR 0x0A, CHR 0x0B, CHR 0x0C, CHR 0x0D, CHR 0x1C,
       CHR 0x1D, CHR 0x1E, CHR 0x1F, CHR 0x20, CHR 0x85, CHR 0xA0])"

definition is_linebreak :: "char \<Rightarrow> bool" where
  \<comment> \<open>the line boundaries of \<open>str.splitlines\<close>\<close>
  "is_linebreak c = (c \<in> set [CHR 0x0A, CHR 0x0B, CHR 0x0C, CHR 0x0D, CHR 0x1C,
       CHR 0x1D, CHR 0x1E, CHR 0x85])"

definition lower_char :: "char \<Rightarrow> char" where
  \<comment> \<open>A-Z and the capital letters U+00C0..U+00DE (without the multiplication sign U+00D7)\<close>
  "lower_char c =
     (let n = (of_char c :: nat)
      in if (0x41 \<le> n \<and> n \<le> 0x5A) \<or> (0xC0 \<le> n \<and> n \<le> 0xDE \<and> n \<noteq> 0xD7)
         then char_of (n + 0x20) else c)"

definition lower :: "string \<Rightarrow> string" where
  "lower s = map lower_char s"

fun starts_with :: "string \<Rightarrow> string \<Rightarrow> bool" where
  "starts_with s [] = True"
| "starts_with [] (k # ks) = False"
| "starts_with (c # s) (k # ks) = (c = k \<and> starts_with s ks)"

fun contains :: "string \<Rightarrow> string \<Rightarrow> bool" where
  \<comment> \<open>\<open>k in s\<close>\<close>
  "contains [] k = starts_with [] k"
| "contains (c # s) k = (starts_with (c # s) k \<or> contains s k)"

definition replace_char :: "char \<Rightarrow> string \<Rightarrow> string \<Rightarrow> string" where
  \<comment> \<open>\<open>s.replace(old, new)\<close> for a one-character \<open>old\<close>\<close>
  "replace_char old new s = concat (map (\<lambda>c. if c = old then new else [c]) s)"

fun join :: "string \<Rightarrow> string list \<Rightarrow> string" where
  \<comment> \<open>\<open>sep.join(xs)\<close>\<close>
  "join sep [] = []"
| "join sep [x] = x"
| "join sep (x # y # ys) = x @ sep @ join sep (y # ys)"

fun splitlines_from :: "string \<Rightarrow> string \<Rightarrow> string list" where
  \<comment> \<open>first argument: the current line so far, reversed; CR LF is one boundary\<close>
  "splitlines_from cur [] = (if cur = [] then [] else [rev cur])"
| "splitlines_from cur (c # cs) =
     (if c = CHR 0x0D \<and> cs \<noteq> [] \<and> hd cs = CHR 0x0A then rev cur # splitlines_from [] (tl cs)
      else if is_linebreak c then rev cur # splitlines_from [] cs
      else splitlines_from (c # cur) cs)"

definition splitlines :: "string \<Rightarrow> string list" where
  "splitlines s = splitlines_from [] s"

subsection \<open>Regular expressions with the priorities of a backtracking matcher\<close>

datatype rx = Eps | Cls "char list" | Digit | Space | Seq rx rx | Alt rx rx
  | Rep nat nat rx | Star rx

text \<open>
  \<open>rx_match ic r s\<close> lists, in the order in which Python's \<open>re\<close> tries them, the rests of
  \<open>s\<close> left by each way of matching \<open>r\<close> at the start of \<open>s\<close>; its head is the match that
  \<open>re\<close> reports. \<open>Rep lo hi r\<close> is the greedy \<open>r{lo,hi}\<close>, \<open>Star r\<close> the greedy \<open>r*\<close>, and
  \<open>ic\<close> is the flag \<open>re.IGNORECASE\<close>.
\<close>

function rx_match :: "bool \<Rightarrow> rx \<Rightarrow> string \<Rightarrow> string list" where
  "rx_match ic Eps s = [s]"
| "rx_match ic (Cls cs) s =
     (case s of [] \<Rightarrow> []
      | c # t \<Rightarrow> if c \<in> set cs \<or> (ic \<and> lower_char c \<in> set (map lower_char cs))
                 then [t] else [])"
| "rx_match ic Digit s = (case s of [] \<Rightarrow> [] | c # t \<Rightarrow> if is_digit c then [t] else [])"
| "rx_match ic Space s = (case s of [] \<Rightarrow> [] | c # t \<Rightarrow> if is_space c then [t] else [])"
| "rx_match ic (Seq a b) s = concat (map (rx_match ic b) (rx_match ic a s))"
| "rx_match ic (Alt a b) s = rx_match ic a s @ rx_match ic b s"
| "rx_match ic (Rep lo hi a) s =
     (if hi = 0 then [s]
      else concat (map (rx_match ic (Rep (lo - 1) (hi - 1) a)) (rx_match ic a s))
           @ (if lo = 0 then [s] else []))"
| "rx_match ic (Star a) s =
     concat (map (\<lambda>t. if length t < length s then rx_match ic (Star a) t else [])
                 (rx_match ic a s))
     @ [s]"
  by pat_completeness auto
termination
  by (relation "measures [\<lambda>(ic, r, s). size r,
                          \<lambda>(ic, r, s). (case r of Rep lo hi a \<Rightarrow> hi | _ \<Rightarrow> 0),
                          \<lambda>(ic, r, s). length s]") auto

lemmas rx_match_eqs = rx_match.simps

declare rx_match.simps [simp del]

fun Lit :: "string \<Rightarrow> rx" where
  "Lit [] = Eps"
| "Lit (c # cs) = Seq (Cls [c]) (Lit cs)"

lemma rx_match_length: "t \<in> set (rx_match ic r s) \<Longrightarrow> length t \<le> length s"
proof (induction ic r s arbitrary: t rule: rx_match.induct)
  case (1 ic s)
  then show ?case by (simp add: rx_match.simps(1))
next
  case (2 ic cs s)
  then show ?case by (cases s) (simp_all add: rx_match.simps(2) split: if_splits)
next
  case (3 ic s)
  then show ?case by (cases s) (simp_all add: rx_match.simps(3) split: if_splits)
next
  case (4 ic s)
  then show ?case by (cases s) (simp_all add: rx_match.simps(4) split: if_splits)
next
  case (5 ic a b s)
  from "5.prems" obtain u where u: "u \<in> set (rx_match ic a s)"
    and t: "t \<in> set (rx_match ic b u)"
    by (auto simp: rx_match.simps(5))
  from "5.IH"(1)[OF u] "5.IH"(2)[OF u t] show ?case by simp
next
  case (6 ic a b s)
  from "6.prems" have "t \<in> set (rx_match ic a s) \<or> t \<in> set (rx_match ic b s)"
    by (simp add: rx_match.simps(6))
  with "6.IH" show ?case by blast
next
  case (7 ic lo hi a s)
  show ?case
  proof (cases "hi = 0")
    case True
    with "7.prems" show ?thesis by (simp add: rx_match.simps(7))
  next
    case False
    with "7.prems" consider
      (more) u where "u \<in> set (rx_match ic a s)"
        "t \<in> set (rx_match ic (Rep (lo - 1) (hi - 1) a) u)"
      | (stop) "t = s"
      by (subst (asm) rx_match.simps(7)) (auto split: if_splits)
    then show ?thesis
    proof cases
      case more
      from "7.IH"(1)[OF False more(1)] "7.IH"(2)[OF False more(1) more(2)]
      show ?thesis by simp
    next
      case stop
      then show ?thesis by simp
    qed
  qed
next
  case (8 ic a s)
  from "8.prems" consider
    (more) u where "u \<in> set (rx_match ic a s)" "length u < length s"
      "t \<in> set (rx_match ic (Star a) u)"
    | (stop) "t = s"
    by (subst (asm) rx_match.simps(8)) (auto split: if_splits)
  then show ?case
  proof cases
    case more
    from "8.IH"(2)[OF more(1) more(2) more(3)] more(2) show ?thesis by simp
  next
    case stop
    then show ?thesis by simp
  qed
qed

subsection \<open>Total detection (\<open>src/ocr/compare_ocr.py\<close>)\<close>

text \<open>
  \<open>AMOUNT_RE\<close> is \<open>(\d{1,3}(?:[ \xA0,]\d{3})*(?:[.,]\d{2}))\s*(\<euro>|EUR|DT|TND)?\<close>,
  compiled with \<open>re.IGNORECASE\<close>. \<open>AMOUNT_G1\<close> is its group 1 and \<open>AMOUNT_TAIL\<close> what
  follows the group; the euro-sign alternative is left out (see above).
\<close>

definition AMOUNT_G1 :: rx where
  "AMOUNT_G1 = Seq (Rep 1 3 Digit)
                 (Seq (Star (Seq (Cls [CHR '' '', CHR 0xA0, CHR '','']) (Rep 3 3 Digit)))
                      (Seq (Cls ''.,'') (Rep 2 2 Digit)))"

definition AMOUNT_TAIL :: rx where
  "AMOUNT_TAIL =
     Seq (Star Space) (Rep 0 1 (Alt (Lit ''EUR'') (Alt (Lit ''DT'') (Lit ''TND''))))"

definition TOTAL_KEYWORDS :: "string list" where
  "TOTAL_KEYWORDS =
     [''total t.t.c'', ''total ttc'', ''total '' @ [CHR 0xE0] @ '' payer'', ''total t.t.c.'',
      ''total'']"

definition amount_match :: "string \<Rightarrow> (string \<times> string) option" where
  \<comment> \<open>\<open>AMOUNT_RE\<close> matched at the start of \<open>s\<close>: group 1 and the text after the match\<close>
  "amount_match s =
     (case concat (map (\<lambda>t. map (Pair t) (rx_match True AMOUNT_TAIL t))
                       (rx_match True AMOUNT_G1 s)) of
        [] \<Rightarrow> None
      | (t, u) # _ \<Rightarrow> Some (take (length s - length t) s, u))"

fun amount_search :: "string \<Rightarrow> (string \<times> string) option" where
  \<comment> \<open>\<open>AMOUNT_RE.search(s)\<close>: the leftmost match\<close>
  "amount_search [] = amount_match []"
| "amount_search (c # cs) =
     (case amount_match (c # cs) of Some m \<Rightarrow> Some m | None \<Rightarrow> amount_search cs)"

lemma amount_g1_length:
  assumes "t \<in> set (rx_match True AMOUNT_G1 s)"
  shows "length t < length s"
proof -
  from assms obtain u where u: "u \<in> set (rx_match True (Rep 1 3 Digit) s)"
    and t: "t \<in> set (rx_match True
        (Seq (Star (Seq (Cls [CHR '' '', CHR 0xA0, CHR '','']) (Rep 3 3 Digit)))
             (Seq (Cls ''.,'') (Rep 2 2 Digit))) u)"
    unfolding AMOUNT_G1_def by (auto simp: rx_match.simps(5))
  from u obtain v where v: "v \<in> set (rx_match True Digit s)"
    and uv: "u \<in> set (rx_match True (Rep 0 2 Digit) v)"
    by (subst (asm) rx_match.simps(7)) auto
  from v have "length v < length s"
    by (cases s) (simp_all add: rx_match.simps(3) split: if_splits)
  moreover from uv have "length u \<le> length v" by (rule rx_match_length)
  moreover from t have "length t \<le> length u" by (rule rx_match_length)
  ultimately show ?thesis by simp
qed

lemma amount_match_length:
  assumes "amount_match s = Some (g, u)"
  shows "length u < length s"
proof -
  from assms obtain t rest where
    eq: "concat (map (\<lambda>t. map (Pair t) (rx_match True AMOUNT_TAIL t))
                     (rx_match True AMOUNT_G1 s)) = (t, u) # rest"
    unfolding amount_match_def by (auto split: list.splits)
  have "(t, u) \<in> set (concat (map (\<lambda>t. map (Pair t) (rx_match True AMOUNT_TAIL t))
                     (rx_match True AMOUNT_G1 s)))"
    unfolding eq by simp
  then have t: "t \<in> set (rx_match True AMOUNT_G1 s)"
    and u: "u \<in> set (rx_match True AMOUNT_TAIL t)"
    by auto
  from u have "length u \<le> length t" by (rule rx_match_length)
  moreover from t have "length t < length s" by (rule amount_g1_length)
  ultimately show ?thesis by simp
qed

lemma amount_search_length: "amount_search s = Some (g, u) \<Longrightarrow> length u < length s"
proof (induction s)
  case Nil
  then show ?case by (auto dest: amount_match_length)
next
  case (Cons c cs)
  show ?case
  proof (cases "amount_match (c # cs)")
    case None
    with Cons show ?thesis by simp
  next
    case (Some m)
    with Cons.prems have "amount_match (c # cs) = Some (g, u)" by simp
    then show ?thesis by (rule amount_match_length)
  qed
qed

function findall :: "string \<Rightarrow> string list" where
  \<comment> \<open>group 1 of each item of \<open>AMOUNT_RE.findall(s)\<close>: the next search starts where the last
      match ended\<close>
  "findall s = (case amount_search s of None \<Rightarrow> [] | Some (g, u) \<Rightarrow> g # findall u)"
  by pat_completeness auto
termination
  by (relation "measure length") (auto dest: amount_search_length)

declare findall.simps [simp del]

text \<open>The normalisation applied to a matched amount: spaces and no-break spaces removed,
  commas turned into dots.\<close>

definition clean_amount :: "string \<Rightarrow> string" where
  "clean_amount g =
     replace_char (CHR '','') ''.'' (replace_char (CHR 0xA0) [] (replace_char (CHR '' '') [] g))"

subsubsection \<open>\<open>float(s)\<close> and \<open>str(x)\<close>\<close>

datatype pyfloat = Finite real | PosInf | NegInf | NaN

definition is_float_space :: "char \<Rightarrow> bool" where
  \<comment> \<open>the characters that \<open>float()\<close> strips from both ends\<close>
  "is_float_space c =
     (c \<in> set [CHR 0x09, CHR 0x0A, CHR 0x0B, CHR 0x0C, CHR 0x0D, CHR 0x20, CHR 0x85, CHR 0xA0])"

definition float_strip :: "string \<Rightarrow> string" where
  "float_strip s = rev (dropWhile is_float_space (rev (dropWhile is_float_space s)))"

fun digitpart :: "string \<Rightarrow> bool" where
  \<comment> \<open>\<open>digit (["_"] digit)*\<close>\<close>
  "digitpart [] = False"
| "digitpart [c] = is_digit c"
| "digitpart (c # d # r) =
     (is_digit c \<and> (if d = CHR ''_'' then digitpart r else digitpart (d # r)))"

definition digit_val :: "char \<Rightarrow> nat" where
  "digit_val c = of_char c - 48"

definition digits_val :: "string \<Rightarrow> nat" where
  \<comment> \<open>the number written by the digits of \<open>s\<close>, underscores skipped\<close>
  "digits_val s = foldl (\<lambda>n c. 10 * n + digit_val c) 0 (filter is_digit s)"

definition split_first :: "(char \<Rightarrow> bool) \<Rightarrow> string \<Rightarrow> string \<times> string option" where
  \<comment> \<open>the text before the first character satisfying \<open>P\<close>, and the text after it if there
      is one\<close>
  "split_first P s =
     (takeWhile (\<lambda>c. \<not> P c) s,
      case dropWhile (\<lambda>c. \<not> P c) s of [] \<Rightarrow> None | _ # r \<Rightarrow> Some r)"

definition parse_sign :: "string \<Rightarrow> bool \<times> string" where
  "parse_sign s =
     (case s of [] \<Rightarrow> (False, [])
      | c # r \<Rightarrow> if c = CHR ''-'' then (True, r) else if c = CHR ''+'' then (False, r)
                 else (False, s))"

definition parse_number :: "string \<Rightarrow> real option" where
  \<comment> \<open>\<open>([digitpart] "." digitpart | digitpart ["."]) [("e" | "E") [sign] digitpart]\<close>\<close>
  "parse_number u =
     (let (m, ex) = split_first (\<lambda>c. c = CHR ''e'' \<or> c = CHR ''E'') u;
          (ip, fp) = split_first (\<lambda>c. c = CHR ''.'') m;
          m_ok = (case fp of None \<Rightarrow> digitpart ip
                  | Some f \<Rightarrow> (digitpart ip \<and> (f = [] \<or> digitpart f))
                              \<or> (ip = [] \<and> digitpart f));
          f = (case fp of None \<Rightarrow> [] | Some f \<Rightarrow> f);
          mant = real (digits_val (ip @ f)) / 10 ^ length (filter is_digit f)
      in if \<not> m_ok then None
         else case ex of None \<Rightarrow> Some mant
           | Some e \<Rightarrow>
               (let (neg, d) = parse_sign e
                in if \<not> digitpart d then None
                   else Some (if neg then mant / 10 ^ digits_val d
                              else mant * 10 ^ digits_val d)))"

definition py_float :: "string \<Rightarrow> pyfloat option" where
  \<comment> \<open>\<open>float(s)\<close>; \<open>None\<close> is \<open>ValueError\<close>\<close>
  "py_float s =
     (let (neg, u) = parse_sign (float_strip s); l = lower u
      in if l = ''inf'' \<or> l = ''infinity'' then Some (if neg then NegInf else PosInf)
         else if l = ''nan'' then Some NaN
         else map_option (\<lambda>x. Finite (if neg then - x else x)) (parse_number u))"

definition digit_char :: "nat \<Rightarrow> char" where
  "digit_char d = ''0123456789'' ! (d mod 10)"

function nat_digits :: "nat \<Rightarrow> string" where
  "nat_digits n = (if n < 10 then [digit_char n] else nat_digits (n div 10) @ [digit_char n])"
  by pat_completeness auto
termination
  by (relation "measure id") auto

declare nat_digits.simps [simp del]

function frac_digits :: "nat \<Rightarrow> real \<Rightarrow> string" where
  \<comment> \<open>at most \<open>k\<close> decimals of \<open>f\<close>, \<open>0 \<le> f < 1\<close>, stopping when nothing is left\<close>
  "frac_digits k f =
     (if k = 0 \<or> f = 0 then []
      else let d = nat \<lfloor>f * 10\<rfloor> in digit_char d # frac_digits (k - 1) (f * 10 - real d))"
  by pat_completeness auto
termination
  by (relation "measure fst") auto

declare frac_digits.simps [simp del]

text \<open>
  \<open>str(x)\<close> of a float: the shortest decimal that reads back as \<open>x\<close>, with at least one
  decimal. For the floats nearest to decimals of at most 15 significant digits and of magnitude
  in \<open>[1e-4, 1e16)\<close>, that is the decimal itself; Python's exponent notation outside that
  range is not modelled.
\<close>

fun float_str :: "pyfloat \<Rightarrow> string" where
  "float_str (Finite r) =
     (let a = \<bar>r\<bar>; n = nat \<lfloor>a\<rfloor>; fr = frac_digits 17 (a - real n)
      in (if r < 0 then ''-'' else []) @ nat_digits n @ ''.'' @ (if fr = [] then ''0'' else fr))"
| "float_str PosInf = ''inf''"
| "float_str NegInf = ''-inf''"
| "float_str NaN = ''nan''"

fun fl_gt :: "pyfloat \<Rightarrow> pyfloat \<Rightarrow> bool" where
  \<comment> \<open>\<open>x > y\<close> on floats\<close>
  "fl_gt (Finite x) (Finite y) = (x > y)"
| "fl_gt NaN _ = False"
| "fl_gt _ NaN = False"
| "fl_gt PosInf y = (y \<noteq> PosInf)"
| "fl_gt x NegInf = (x \<noteq> NegInf)"
| "fl_gt _ _ = False"

definition py_max :: "pyfloat list \<Rightarrow> pyfloat" where
  \<comment> \<open>\<open>max(xs)\<close> for a non-empty list: the first item that no later item exceeds\<close>
  "py_max xs = foldl (\<lambda>m x. if fl_gt x m then x else m) (hd xs) (tl xs)"

subsubsection \<open>\<open>find_total_in_text\<close>\<close>

definition has_keyword :: "string \<Rightarrow> bool" where
  \<comment> \<open>\<open>any(k in line.lower() for k in TOTAL_KEYWORDS)\<close>\<close>
  "has_keyword line = list_ex (contains (lower line)) TOTAL_KEYWORDS"

fun keyword_scan :: "string list \<Rightarrow> string option" where
  \<comment> \<open>the loop \<open>for line in reversed(lines)\<close>, on the reversed list; \<open>Some\<close> is its
      \<open>return\<close>, \<open>None\<close> is the loop running to its end\<close>
  "keyword_scan [] = None"
| "keyword_scan (line # rest) =
     (if has_keyword line
      then (case amount_search line of
              Some (g, _) \<Rightarrow> Some (clean_amount g)
            | None \<Rightarrow> keyword_scan rest)
      else keyword_scan rest)"

definition largest_amount :: "string \<Rightarrow> string option" where
  \<comment> \<open>the fallback, lines 100-117: the list comprehension \<open>[float(x) for x in cleaned]\<close>
      raises \<open>ValueError\<close> at the first item that does not parse\<close>
  "largest_amount text_block =
     (let matches = findall text_block
      in if matches = [] then None
         else let cleaned = map clean_amount matches
              in case those (map py_float cleaned) of
                   Some nums \<Rightarrow> Some (float_str (py_max nums))
                 | None \<Rightarrow> Some (last cleaned))"

definition find_total_in_text :: "string \<Rightarrow> string option" where
  "find_total_in_text text_block =
     (let lines = splitlines text_block
      in case keyword_scan (rev lines) of
           Some r \<Rightarrow> Some r
         | None \<Rightarrow> largest_amount text_block)"

section \<open>Scoring (\<open>src/decision/select_best_ocr.py\<close>, \<open>scripts/process_orange_factures.py\<close>)\<close>

definition CONF_MARGIN :: real where
  "CONF_MARGIN = 0.02"

text \<open>
  \<open>score_result(avg_conf, total, num_lines)\<close>; both files define it with the same body.
  \<open>total\<close> is \<open>None\<close> or the detected total.
\<close>

definition score_result :: "real \<Rightarrow> string option \<Rightarrow> nat \<Rightarrow> real" where
  "score_result avg_conf tot num_lines =
     (let score = avg_conf;
          score = (if tot \<noteq> None then score + 0.05 else score);
          score = score + min (real num_lines / 100) 0.05
      in score)"

subsection \<open>The OCR adapter and the two arbiters\<close>

record ocr_line =
  ln_text :: string
  ln_conf :: real
  ln_box :: "(real \<times> real) list"

text \<open>
  What the OCR engine returns for one image: a list of pages, each a list of
  \<open>[box, (text, confidence)]\<close>. The engine itself is not part of the repository, so the
  functions below take its result instead of the image path.
\<close>

type_synonym ocr_output = "((real \<times> real) list \<times> string \<times> real) list list"

definition mean :: "real list \<Rightarrow> real" where
  "mean xs = sum_list xs / real (length xs)"

definition run_ocr_on_image :: "ocr_output \<Rightarrow> ocr_line list \<times> real \<times> string" where
  "run_ocr_on_image result =
     (let extracted = map (\<lambda>(b, t, c). \<lparr>ln_text = t, ln_conf = c, ln_box = b\<rparr>) (concat result);
          texts = map ln_text extracted;
          confs = map ln_conf extracted;
          avg_conf = (if confs \<noteq> [] then mean confs else 0.0);
          full_text = join [CHR 0x0A] texts
      in (extracted, avg_conf, full_text))"

record decision =
  d_chosen :: string
  d_avg_conf :: real
  d_total :: "string option"
  d_lines :: "ocr_line list"

record orange_decision = decision +
  d_score :: real
  d_score_original :: real
  d_score_preprocessed :: real

definition select_best :: "ocr_output \<Rightarrow> ocr_output \<Rightarrow> decision" where
  \<comment> \<open>\<open>src/decision/select_best_ocr.py\<close>; the arguments are the engine's results for
      \<open>image_original\<close> and \<open>image_processed\<close> (an OCR call that raises is not caught
      here, and then nothing is chosen)\<close>
  "select_best result_o result_p =
     (let (ext_o, conf_o, text_o) = run_ocr_on_image result_o;
          (ext_p, conf_p, text_p) = run_ocr_on_image result_p;
          total_o = find_total_in_text text_o;
          total_p = find_total_in_text text_p;
          score_o = score_result conf_o total_o (length ext_o);
          score_p = score_result conf_p total_p (length ext_p)
      in if score_p > score_o + CONF_MARGIN
         then \<lparr>d_chosen = ''processed'', d_avg_conf = conf_p, d_total = total_p,
               d_lines = ext_p\<rparr>
         else \<lparr>d_chosen = ''original'', d_avg_conf = conf_o, d_total = total_o,
               d_lines = ext_o\<rparr>)"

definition select_best_orange :: "ocr_output option \<Rightarrow> ocr_output option \<Rightarrow> orange_decision"
  where
  \<comment> \<open>\<open>scripts/process_orange_factures.py\<close>; \<open>None\<close> is an OCR call that raised. The
      image preprocessing before the calls, the removal of the temporary file after them and
      the key \<open>image\<close> of the result (the file name) are left out.\<close>
  "select_best_orange result_o result_p =
     (let (ext_o, conf_o, text_o) =
            (case result_o of Some r \<Rightarrow> run_ocr_on_image r | None \<Rightarrow> ([], 0.0, []));
          (ext_p, conf_p, text_p) =
            (case result_p of Some r \<Rightarrow> run_ocr_on_image r | None \<Rightarrow> ([], 0.0, []));
          total_o = (if text_o \<noteq> [] then find_total_in_text text_o else None);
          total_p = (if text_p \<noteq> [] then find_total_in_text text_p else None);
          score_o = (if ext_o \<noteq> [] then score_result conf_o total_o (length ext_o) else 0.0);
          score_p = (if ext_p \<noteq> [] then score_result conf_p total_p (length ext_p) else 0.0)
      in if score_p > score_o + CONF_MARGIN \<and> length ext_p > 0
         then \<lparr>d_chosen = ''preprocessed'', d_avg_conf = conf_p, d_total = total_p,
               d_lines = ext_p, d_score = score_p, d_score_original = score_o,
               d_score_preprocessed = score_p\<rparr>
         else \<lparr>d_chosen = ''original'', d_avg_conf = conf_o, d_total = total_o,
               d_lines = ext_o, d_score = score_o, d_score_original = score_o,
               d_score_preprocessed = score_p\<rparr>)"

section \<open>Normalisation (\<open>src/normalisation.py\<close>)\<close>

definition py_strip :: "string \<Rightarrow> string" where
  \<comment> \<open>\<open>s.strip()\<close>\<close>
  "py_strip s = rev (dropWhile is_space (rev (dropWhile is_space s)))"

definition rfind :: "char \<Rightarrow> string \<Rightarrow> int" where
  \<comment> \<open>\<open>s.rfind(c)\<close>: the highest index of \<open>c\<close>, or \<open>-1\<close>\<close>
  "rfind c s =
     (if c \<in> set s then int (length s) - 1 - int (length (takeWhile (\<lambda>x. x \<noteq> c) (rev s)))
      else - 1)"

fun split_char :: "char \<Rightarrow> string \<Rightarrow> string list" where
  \<comment> \<open>\<open>s.split(c)\<close>\<close>
  "split_char c [] = [[]]"
| "split_char c (x # xs) =
     (if x = c then [] # split_char c xs
      else case split_char c xs of p # ps \<Rightarrow> (x # p) # ps | [] \<Rightarrow> [[x]])"

definition is_amount_noise :: "char \<Rightarrow> bool" where
  \<comment> \<open>the class \<open>[\<euro>$\<pounds>\<yen>\sA-Z]\<close>, without the euro sign\<close>
  "is_amount_noise c =
     (c \<in> set [CHR ''$'', CHR 0xA3, CHR 0xA5] \<or> is_space c
      \<or> c \<in> set ''ABCDEFGHIJKLMNOPQRSTUVWXYZ'')"

definition resolve_separators :: "string \<Rightarrow> string" where
  \<comment> \<open>lines 81-101 of \<open>normalize_amount\<close>\<close>
  "resolve_separators v =
     (let has_comma = CHR '','' \<in> set v; has_dot = CHR ''.'' \<in> set v
      in if has_comma \<and> has_dot
         then (let last_comma = rfind (CHR '','') v; last_dot = rfind (CHR ''.'') v
               in if last_comma > last_dot
                  then replace_char (CHR '','') ''.'' (replace_char (CHR ''.'') [] v)
                  else replace_char (CHR '','') [] v)
         else if has_comma \<and> \<not> has_dot
         then (let parts = split_char (CHR '','') v
               in if length (last parts) \<le> 2
                  then replace_char (CHR '','') ''.'' v
                  else replace_char (CHR '','') [] v)
         else v)"

definition normalize_amount :: "string \<Rightarrow> pyfloat option" where
  "normalize_amount v0 =
     (if v0 = [] then None
      else let v = filter (\<lambda>c. \<not> is_amount_noise c) (py_strip v0)
           in if v = [] then None
              else py_float (resolve_separators v))"

fun rx_groups :: "bool \<Rightarrow> rx list \<Rightarrow> string \<Rightarrow> string list list" where
  \<comment> \<open>the ways of matching the patterns one after the other at the start of \<open>s\<close>, in the
      matcher's order: for each, the pieces of \<open>s\<close> matched\<close>
  "rx_groups ic [] s = [[]]"
| "rx_groups ic (r # rs) s =
     concat (map (\<lambda>t. map (Cons (take (length s - length t) s)) (rx_groups ic rs t))
                 (rx_match ic r s))"

definition zfill :: "nat \<Rightarrow> string \<Rightarrow> string" where
  \<comment> \<open>\<open>s.zfill(w)\<close>: zeros go after a leading sign\<close>
  "zfill w s =
     (case s of
        c # r \<Rightarrow> if c = CHR ''+'' \<or> c = CHR ''-''
                 then c # replicate (w - length s) (CHR ''0'') @ r
                 else replicate (w - length s) (CHR ''0'') @ s
      | [] \<Rightarrow> replicate w (CHR ''0''))"

definition DATE_RE :: "rx list" where
  \<comment> \<open>\<open>(\d{1,2})[\/\-](\d{1,2})[\/\-](\d{2,4})\<close>\<close>
  "DATE_RE = [Rep 1 2 Digit, Cls ''/-'', Rep 1 2 Digit, Cls ''/-'', Rep 2 4 Digit]"

definition normalize_date :: "string \<Rightarrow> string option" where
  \<comment> \<open>\<open>None\<close> is Python's \<open>None\<close>\<close>
  "normalize_date v =
     (if v = [] then None
      else case rx_groups False DATE_RE v of
             [day, _, month, _, year] # _ \<Rightarrow>
               (let year = (if length year = 2 then ''20'' @ year else year)
                in Some (year @ ''-'' @ zfill 2 month @ ''-'' @ zfill 2 day))
           | _ \<Rightarrow> Some v)"

section \<open>Language detection (\<open>src/dictionaries/__init__.py\<close>)\<close>

definition strip_accent_char :: "char \<Rightarrow> char" where
  \<comment> \<open>canonical decomposition (NFD) with the combining marks (category Mn) dropped: on
      U+0000..U+00FF the accented letters lose their accent, every other character stays\<close>
  "strip_accent_char c =
     (let n = (of_char c :: nat)
      in if 0xC0 \<le> n \<and> n \<le> 0xC5 then CHR ''A'' else if n = 0xC7 then CHR ''C''
         else if 0xC8 \<le> n \<and> n \<le> 0xCB then CHR ''E''
         else if 0xCC \<le> n \<and> n \<le> 0xCF then CHR ''I'' else if n = 0xD1 then CHR ''N''
         else if 0xD2 \<le> n \<and> n \<le> 0xD6 then CHR ''O''
         else if 0xD9 \<le> n \<and> n \<le> 0xDC then CHR ''U'' else if n = 0xDD then CHR ''Y''
         else if 0xE0 \<le> n \<and> n \<le> 0xE5 then CHR ''a'' else if n = 0xE7 then CHR ''c''
         else if 0xE8 \<le> n \<and> n \<le> 0xEB then CHR ''e''
         else if 0xEC \<le> n \<and> n \<le> 0xEF then CHR ''i'' else if n = 0xF1 then CHR ''n''
         else if 0xF2 \<le> n \<and> n \<le> 0xF6 then CHR ''o''
         else if 0xF9 \<le> n \<and> n \<le> 0xFC then CHR ''u''
         else if n = 0xFD \<or> n = 0xFF then CHR ''y'' else c)"

definition french_keywords :: "string list" where
  "french_keywords = [''facture'', ''designation'', ''montant'', ''ttc'', ''tva'', ''qte'']"

definition english_keywords :: "string list" where
  "english_keywords = [''invoice'', ''description'', ''amount'', ''total'', ''vat'', ''qty'']"

definition count_hits :: "string list \<Rightarrow> string \<Rightarrow> nat" where
  \<comment> \<open>\<open>sum(1 for word in keywords if word in t)\<close>\<close>
  "count_hits keywords t = length (filter (contains t) keywords)"

definition max_by_value :: "(string \<times> nat) list \<Rightarrow> string \<times> nat" where
  \<comment> \<open>\<open>max(items, key=operator.itemgetter(1))\<close> for a non-empty list: the first item whose
      value no later item exceeds\<close>
  "max_by_value xs = foldl (\<lambda>m x. if snd x > snd m then x else m) (hd xs) (tl xs)"

definition detect_language :: "string \<Rightarrow> string" where
  \<comment> \<open>\<open>scores\<close> is a \<open>dict\<close> created with the key \<open>fr\<close> before the key \<open>en\<close>; \<open>items()\<close> keeps
      that order\<close>
  "detect_language t =
     (let normalized_text = map strip_accent_char (lower t);
          scores = [(''fr'', count_hits french_keywords normalized_text),
                    (''en'', count_hits english_keywords normalized_text)];
          (language, max_score) = max_by_value scores
      in if max_score > 0 then language else ''generic'')"

section \<open>Structuring (\<open>src/structurer/ocr_to_structured_json.py\<close>)\<close>

datatype error = ValueError

definition min_of :: "real list \<Rightarrow> real" where
  \<comment> \<open>\<open>min(xs)\<close> for a non-empty \<open>xs\<close>; on the empty list Python raises \<open>ValueError\<close>, which
      \<open>group_lines_into_blocks\<close> below returns before any box is measured\<close>
  "min_of xs = fold min (tl xs) (hd xs)"

definition max_of :: "real list \<Rightarrow> real" where
  "max_of xs = fold max (tl xs) (hd xs)"

definition bbox_left :: "(real \<times> real) list \<Rightarrow> real" where
  "bbox_left b = min_of (map fst b)"

definition bbox_right :: "(real \<times> real) list \<Rightarrow> real" where
  "bbox_right b = max_of (map fst b)"

definition bbox_top :: "(real \<times> real) list \<Rightarrow> real" where
  "bbox_top b = min_of (map snd b)"

definition bbox_bottom :: "(real \<times> real) list \<Rightarrow> real" where
  "bbox_bottom b = max_of (map snd b)"

definition bbox_union :: "(real \<times> real) list list \<Rightarrow> real list" where
  "bbox_union boxes =
     [min_of (map bbox_left boxes), min_of (map bbox_top boxes),
      max_of (map bbox_right boxes), max_of (map bbox_bottom boxes)]"

fun group_loop :: "real \<Rightarrow> ocr_line list \<Rightarrow> ocr_line list list \<Rightarrow> ocr_line list
    \<Rightarrow> ocr_line list list" where
  \<comment> \<open>the loop \<open>for line in lines\<close> and the lines after it, with the variables \<open>blocks\<close> and
      \<open>current\<close>\<close>
  "group_loop y_gap [] blocks current = (if current \<noteq> [] then blocks @ [current] else blocks)"
| "group_loop y_gap (line # rest) blocks current =
     (if current = [] then group_loop y_gap rest blocks [line]
      else let prev = last current;
               gap = bbox_top (ln_box line) - bbox_bottom (ln_box prev)
           in if gap < y_gap then group_loop y_gap rest blocks (current @ [line])
              else group_loop y_gap rest (blocks @ [current]) [line])"

definition group_lines_into_blocks :: "ocr_line list \<Rightarrow> real \<Rightarrow> error + ocr_line list list"
  where
  \<comment> \<open>\<open>sorted\<close> computes the key of every line first, and \<open>bbox_top\<close> of a box without a
      point raises \<open>ValueError\<close>; \<open>sorted\<close> is stable, as \<open>sort_key\<close> is\<close>
  "group_lines_into_blocks lines y_gap =
     (if \<exists>l\<in>set lines. ln_box l = [] then Inl ValueError
      else Inr (group_loop y_gap (sort_key (\<lambda>l. bbox_top (ln_box l)) lines) [] []))"

record struct_line =
  line_id :: nat
  sl_text :: string
  sl_bbox :: "real list"
  confidence :: real

record block =
  block_id :: nat
  bbox :: "real list"
  b_lines :: "struct_line list"

record structured =
  blocks :: "block list"
  meta_avg_conf :: "real option"
  meta_lines_count :: nat
  meta_blocks_count :: nat
  meta_chosen_source :: "string option"

record final_json =
  fj_lines :: "ocr_line list"
  fj_avg_conf :: "real option"
  fj_chosen :: "string option"

definition structure_block :: "nat \<times> ocr_line list \<Rightarrow> block" where
  \<comment> \<open>the body of the loop \<open>for i, block in enumerate(blocks_raw, start=1)\<close>\<close>
  "structure_block = (\<lambda>(i, blk).
     \<lparr>block_id = i,
      bbox = bbox_union (map ln_box blk),
      b_lines = map (\<lambda>(j, l).
          \<lparr>line_id = j, sl_text = ln_text l,
           sl_bbox = [bbox_left (ln_box l), bbox_top (ln_box l), bbox_right (ln_box l),
                      bbox_bottom (ln_box l)],
           confidence = ln_conf l\<rparr>)
        (zip [1..<Suc (length blk)] blk)\<rparr>)"

definition structure_ocr :: "final_json \<Rightarrow> error + structured" where
  \<comment> \<open>the argument is the content of the file read, the result the value returned (and
      written); \<open>y_gap\<close> has its default 40\<close>
  "structure_ocr data =
     (case group_lines_into_blocks (fj_lines data) 40 of
        Inl e \<Rightarrow> Inl e
      | Inr blocks_raw \<Rightarrow>
          (let bs = map structure_block (zip [1..<Suc (length blocks_raw)] blocks_raw)
           in Inr \<lparr>blocks = bs,
                   meta_avg_conf = fj_avg_conf data,
                   meta_lines_count = length (fj_lines data),
                   meta_blocks_count = length bs,
                   meta_chosen_source = fj_chosen data\<rparr>))"

text \<open>The two properties of a grouping that the gap rule amounts to: inside a block every
  line starts less than \<open>y_gap\<close> below the bottom of the line before it, and each block starts
  at least \<open>y_gap\<close> below the bottom of the last line of the block before it.\<close>

definition gap_between :: "ocr_line \<Rightarrow> ocr_line \<Rightarrow> real" where
  "gap_between prev line = bbox_top (ln_box line) - bbox_bottom (ln_box prev)"

fun within_gap :: "real \<Rightarrow> ocr_line list \<Rightarrow> bool" where
  "within_gap g (a # b # r) = (gap_between a b < g \<and> within_gap g (b # r))"
| "within_gap g _ = True"

fun blocks_apart :: "real \<Rightarrow> ocr_line list list \<Rightarrow> bool" where
  "blocks_apart g (b1 # b2 # r) = (g \<le> gap_between (last b1) (hd b2) \<and> blocks_apart g (b2 # r))"
| "blocks_apart g _ = True"

text \<open>The lines of the examples: of each, the text, the confidence and the four corners
  of the box.\<close>

abbreviation line_top_10 :: ocr_line where
  "line_top_10 \<equiv>
     \<lparr>ln_text = ''a'', ln_conf = 0.9, ln_box = [(0, 10), (50, 10), (50, 30), (0, 30)]\<rparr>"

abbreviation line_top_20 :: ocr_line where
  "line_top_20 \<equiv>
     \<lparr>ln_text = ''b'', ln_conf = 0.8, ln_box = [(0, 20), (50, 20), (50, 30), (0, 30)]\<rparr>"

abbreviation line_top_100 :: ocr_line where
  "line_top_100 \<equiv>
     \<lparr>ln_text = ''c'', ln_conf = 0.7, ln_box = [(0, 100), (50, 100), (50, 120), (0, 120)]\<rparr>"

abbreviation line_box_0_10 :: ocr_line where
  "line_box_0_10 \<equiv>
     \<lparr>ln_text = ''a'', ln_conf = 0.9, ln_box = [(0, 0), (10, 0), (10, 10), (0, 10)]\<rparr>"

abbreviation line_box_5_20 :: ocr_line where
  "line_box_5_20 \<equiv>
     \<lparr>ln_text = ''b'', ln_conf = 0.8, ln_box = [(5, 5), (20, 5), (20, 20), (5, 20)]\<rparr>"

section \<open>Evaluation rules\<close>

lemmas char_eval = is_digit_def is_space_def is_linebreak_def lower_def lower_char_def
  char_of_def bit_Suc_0_iff

lemmas rx_eval = rx_match_eqs AMOUNT_G1_def AMOUNT_TAIL_def amount_match_def

lemmas float_eval = py_float_def parse_number_def parse_sign_def split_first_def
  float_strip_def is_float_space_def digits_val_def digit_val_def digit_char_def
  nat_digits.simps frac_digits.simps py_max_def

lemmas total_eval = find_total_in_text_def largest_amount_def has_keyword_def
  TOTAL_KEYWORDS_def clean_amount_def replace_char_def splitlines_def findall.simps

lemmas norm_eval = normalize_amount_def resolve_separators_def py_strip_def rfind_def
  is_amount_noise_def replace_char_def normalize_date_def DATE_RE_def zfill_def

lemmas lang_eval = detect_language_def max_by_value_def count_hits_def french_keywords_def
  english_keywords_def strip_accent_char_def

lemmas struct_eval = structure_ocr_def structure_block_def group_lines_into_blocks_def
  bbox_union_def bbox_left_def bbox_right_def bbox_top_def bbox_bottom_def min_of_def max_of_def
  gap_between_def

section \<open>Lemmas\<close>

lemma find_total_in_text_empty: "find_total_in_text [] = None"
  by (simp add: total_eval rx_eval)

lemma run_ocr_on_image_no_lines:
  assumes "fst (run_ocr_on_image result) = []"
  shows "run_ocr_on_image result = ([], 0, [])"
proof -
  from assms have c: "concat result = []"
    by (simp add: run_ocr_on_image_def Let_def)
  show ?thesis
    unfolding run_ocr_on_image_def Let_def c by simp
qed

lemma mean_nonneg: "\<forall>x\<in>set xs. 0 \<le> x \<Longrightarrow> 0 \<le> mean xs"
  by (simp add: mean_def sum_list_nonneg)

lemma avg_conf_nonneg:
  assumes "\<forall>l\<in>set (fst (run_ocr_on_image result)). 0 \<le> ln_conf l"
  shows "0 \<le> fst (snd (run_ocr_on_image result))"
proof -
  have "0 \<le> mean (map ln_conf (fst (run_ocr_on_image result)))"
    using assms by (intro mean_nonneg) auto
  then show ?thesis
    by (simp add: run_ocr_on_image_def Let_def)
qed

lemma score_result_ge: "c \<le> score_result c tot n"
  by (simp add: score_result_def Let_def)

lemma keyword_scan_skip:
  "\<forall>m\<in>set xs. has_keyword m \<longrightarrow> amount_search m = None
   \<Longrightarrow> keyword_scan (xs @ ys) = keyword_scan ys"
  by (induction xs) simp_all

lemma those_all_None:
  assumes "xs \<noteq> []" and "\<forall>x\<in>set xs. f x = None"
  shows "those (map f xs) = None"
  using assms by (cases xs) simp_all




lemma rfind_last:
  assumes "c \<notin> set b"
  shows "rfind c (a @ c # b) = int (length a)"
proof -
  have "takeWhile (\<lambda>x. x \<noteq> c) (rev b @ c # rev a) = rev b"
    using assms by (subst takeWhile_append2) auto
  then show ?thesis
    by (simp add: rfind_def)
qed

lemma rfind_before:
  assumes "c \<in> set a" and "c \<notin> set b" and "d \<noteq> c"
  shows "rfind c (a @ d # b) < int (length a)"
proof -
  from assms(1) obtain a1 a2 where a: "a = a1 @ c # a2" and "c \<notin> set a2"
    by (auto dest: split_list_last)
  with assms have "c \<notin> set (a2 @ d # b)" by simp
  then have "rfind c (a1 @ c # (a2 @ d # b)) = int (length a1)"
    by (rule rfind_last)
  then show ?thesis by (simp add: a)
qed

lemma replace_char_id: "c \<notin> set s \<Longrightarrow> replace_char c new s = s"
  by (induction s) (auto simp: replace_char_def)

lemma replace_char_append:
  "replace_char c new (s @ t) = replace_char c new s @ replace_char c new t"
  by (simp add: replace_char_def)

lemma replace_char_notin: "c \<notin> set new \<Longrightarrow> c \<notin> set (replace_char c new s)"
  by (induction s) (simp_all add: replace_char_def)

lemma split_char_nonempty: "split_char c s \<noteq> []"
  by (induction s) (simp_all split: list.splits)

lemma split_char_append:
  "split_char c (a @ c # b) = split_char c a @ split_char c b"
proof (induction a)
  case Nil
  show ?case by simp
next
  case (Cons x a)
  obtain p ps where "split_char c a = p # ps"
    using split_char_nonempty[of c a] by (cases "split_char c a") auto
  with Cons show ?case by simp
qed

lemma last_split_char: "last (split_char c (a @ c # b)) = last (split_char c b)"
  by (simp add: split_char_append split_char_nonempty)

lemma split_char_none: "c \<notin> set b \<Longrightarrow> split_char c b = [b]"
  by (induction b) auto

lemma resolve_comma_last:
  assumes "CHR ''.'' \<in> set a" and "CHR '','' \<notin> set b" and "CHR ''.'' \<notin> set b"
  shows "resolve_separators (a @ CHR '','' # b)
         = replace_char (CHR '','') ''.'' (replace_char (CHR ''.'') [] a) @ CHR ''.'' # b"
proof -
  have "rfind (CHR '','') (a @ CHR '','' # b) = int (length a)"
    using assms(2) by (rule rfind_last)
  moreover have "rfind (CHR ''.'') (a @ CHR '','' # b) < int (length a)"
    using assms(1,3) by (intro rfind_before) simp_all
  ultimately have "resolve_separators (a @ CHR '','' # b)
      = replace_char (CHR '','') ''.'' (replace_char (CHR ''.'') [] (a @ CHR '','' # b))"
    using assms(1) by (simp add: resolve_separators_def Let_def)
  also have "replace_char (CHR ''.'') [] (a @ CHR '','' # b)
      = replace_char (CHR ''.'') [] a @ CHR '','' # b"
    using assms(3) replace_char_id[of "CHR ''.''" "CHR '','' # b" "[]"]
    by (simp add: replace_char_append)
  also have "replace_char (CHR '','') ''.'' (replace_char (CHR ''.'') [] a @ CHR '','' # b)
      = replace_char (CHR '','') ''.'' (replace_char (CHR ''.'') [] a) @ CHR ''.'' # b"
    using replace_char_id[OF assms(2), of "''.''"]
          replace_char_append[of "CHR '',''" "''.''" "replace_char (CHR ''.'') [] a"
            "CHR '','' # b"]
          replace_char_append[of "CHR '',''" "''.''" "[CHR '','']" b]
    by (simp add: replace_char_def)
  finally show ?thesis .
qed

lemma resolve_dot_last:
  assumes "CHR '','' \<in> set a" and "CHR '','' \<notin> set b" and "CHR ''.'' \<notin> set b"
  shows "resolve_separators (a @ CHR ''.'' # b) = replace_char (CHR '','') [] a @ CHR ''.'' # b"
proof -
  have "rfind (CHR ''.'') (a @ CHR ''.'' # b) = int (length a)"
    using assms(3) by (rule rfind_last)
  moreover have "rfind (CHR '','') (a @ CHR ''.'' # b) < int (length a)"
    using assms(1,2) by (intro rfind_before) simp_all
  ultimately have "resolve_separators (a @ CHR ''.'' # b)
      = replace_char (CHR '','') [] (a @ CHR ''.'' # b)"
    using assms(1) by (simp add: resolve_separators_def Let_def)
  also have "\<dots> = replace_char (CHR '','') [] a @ CHR ''.'' # b"
    using replace_char_id[of "CHR '',''" "CHR ''.'' # b" "[]"] assms(2)
    by (simp add: replace_char_append)
  finally show ?thesis .
qed

lemma resolve_comma_only:
  assumes "CHR ''.'' \<notin> set a" and "CHR '','' \<notin> set b" and "CHR ''.'' \<notin> set b"
  shows "resolve_separators (a @ CHR '','' # b)
         = (if length b \<le> 2 then replace_char (CHR '','') ''.'' a @ CHR ''.'' # b
            else replace_char (CHR '','') [] a @ b)"
proof -
  have l: "last (split_char (CHR '','') (a @ CHR '','' # b)) = b"
    using assms(2) by (simp add: last_split_char split_char_none)
  have r1: "replace_char (CHR '','') ''.'' (a @ CHR '','' # b)
      = replace_char (CHR '','') ''.'' a @ CHR ''.'' # b"
    using replace_char_id[OF assms(2), of "''.''"]
          replace_char_append[of "CHR '',''" "''.''" a "CHR '','' # b"]
          replace_char_append[of "CHR '',''" "''.''" "[CHR '','']" b]
    by (simp add: replace_char_def)
  have r2: "replace_char (CHR '','') [] (a @ CHR '','' # b) = replace_char (CHR '','') [] a @ b"
    using replace_char_id[OF assms(2), of "[]"]
          replace_char_append[of "CHR '',''" "[]" a "CHR '','' # b"]
          replace_char_append[of "CHR '',''" "[]" "[CHR '','']" b]
    by (simp add: replace_char_def)
  show ?thesis
    using assms(1,3) l r1 r2 by (simp add: resolve_separators_def Let_def)
qed

lemma min_of_Min:
  assumes "xs \<noteq> []"
  shows "min_of xs = Min (set xs)"
proof -
  from assms obtain x r where xs: "xs = x # r" by (cases xs) auto
  have "Min (set (x # r)) = fold min r x" by (rule Min.set_eq_fold)
  then show ?thesis by (simp add: min_of_def xs)
qed

lemma max_of_Max:
  assumes "xs \<noteq> []"
  shows "max_of xs = Max (set xs)"
proof -
  from assms obtain x r where xs: "xs = x # r" by (cases xs) auto
  have "Max (set (x # r)) = fold max r x" by (rule Max.set_eq_fold)
  then show ?thesis by (simp add: max_of_def xs)
qed

lemma group_loop_concat:
  "concat (group_loop g rest bs cur) = concat bs @ cur @ rest"
  by (induction rest arbitrary: bs cur) (simp_all add: Let_def)

lemma group_loop_no_empty_block:
  "[] \<notin> set bs \<Longrightarrow> [] \<notin> set (group_loop g rest bs cur)"
  by (induction rest arbitrary: bs cur) (simp_all add: Let_def)

lemma within_gap_snoc:
  "within_gap g (cur @ [x])
   = (within_gap g cur \<and> (cur \<noteq> [] \<longrightarrow> gap_between (last cur) x < g))"
  by (induction g cur rule: within_gap.induct) auto

lemma group_loop_within_gap:
  assumes "\<forall>b\<in>set bs. within_gap g b" and "within_gap g cur"
  shows "\<forall>b\<in>set (group_loop g rest bs cur). within_gap g b"
  using assms
proof (induction rest arbitrary: bs cur)
  case Nil
  then show ?case by simp
next
  case (Cons x rest)
  show ?case
  proof (cases "cur = []")
    case True
    with Cons.IH[of bs "[x]"] Cons.prems show ?thesis by simp
  next
    case False
    show ?thesis
    proof (cases "gap_between (last cur) x < g")
      case True
      with Cons.prems False have "within_gap g (cur @ [x])"
        by (simp add: within_gap_snoc)
      with Cons.IH[of bs "cur @ [x]"] Cons.prems False True show ?thesis
        by (simp add: gap_between_def)
    next
      case nogap: False
      from Cons.prems have "\<forall>b\<in>set (bs @ [cur]). within_gap g b" by simp
      with Cons.IH[of "bs @ [cur]" "[x]"] False nogap show ?thesis
        by (simp add: gap_between_def)
    qed
  qed
qed

lemma blocks_apart_snoc:
  "bs \<noteq> [] \<Longrightarrow>
   blocks_apart g (bs @ [c])
   = (blocks_apart g bs \<and> g \<le> gap_between (last (last bs)) (hd c))"
  by (induction g bs rule: blocks_apart.induct) auto

lemma blocks_apart_last_grows:
  assumes "cur \<noteq> []"
  shows "blocks_apart g (bs @ [cur @ [x]]) = blocks_apart g (bs @ [cur])"
proof (cases "bs = []")
  case True
  then show ?thesis by simp
next
  case False
  with assms show ?thesis by (simp add: blocks_apart_snoc)
qed

lemma group_loop_blocks_apart:
  assumes "cur = [] \<longrightarrow> bs = []" and "cur \<noteq> [] \<longrightarrow> blocks_apart g (bs @ [cur])"
  shows "blocks_apart g (group_loop g rest bs cur)"
  using assms
proof (induction rest arbitrary: bs cur)
  case Nil
  then show ?case by auto
next
  case (Cons x rest)
  show ?case
  proof (cases "cur = []")
    case True
    with Cons.prems have "bs = []" by simp
    with Cons.IH[of "[x]" "[]"] True show ?thesis by simp
  next
    case False
    show ?thesis
    proof (cases "gap_between (last cur) x < g")
      case True
      from Cons.prems False have "blocks_apart g (bs @ [cur @ [x]])"
        by (simp add: blocks_apart_last_grows)
      with Cons.IH[of "cur @ [x]" bs] False True show ?thesis
        by (simp add: gap_between_def)
    next
      case nogap: False
      from Cons.prems False nogap have "blocks_apart g ((bs @ [cur]) @ [[x]])"
        by (subst blocks_apart_snoc) simp_all
      with Cons.IH[of "[x]" "bs @ [cur]"] False nogap show ?thesis
        by (simp add: gap_between_def)
    qed
  qed
qed

lemma map_snd_enumerate:
  "map (\<lambda>p. f (snd p)) (zip [Suc 0..<Suc (length xs)] xs) = map f xs"
proof -
  have "map snd (zip [Suc 0..<Suc (length xs)] xs) = xs"
    by (rule map_snd_zip) (simp only: length_upt diff_Suc_Suc diff_zero)
  moreover have "map (\<lambda>p. f (snd p)) (zip [Suc 0..<Suc (length xs)] xs)
      = map f (map snd (zip [Suc 0..<Suc (length xs)] xs))"
    by (simp only: map_map comp_def)
  ultimately show ?thesis by (simp only:)
qed

lemma structure_block_fields:
  "bbox (structure_block (i, blk)) = bbox_union (map ln_box blk)
   \<and> map sl_bbox (b_lines (structure_block (i, blk)))
     = map (\<lambda>l. [bbox_left (ln_box l), bbox_top (ln_box l), bbox_right (ln_box l),
                  bbox_bottom (ln_box l)]) blk"
  using map_snd_enumerate[of "\<lambda>l. [bbox_left (ln_box l), bbox_top (ln_box l),
      bbox_right (ln_box l), bbox_bottom (ln_box l)]" blk]
  by (simp add: structure_block_def case_prod_unfold comp_def del: upt_Suc)

lemma structure_ocr_blocks:
  assumes "structure_ocr data = Inr out" and "b \<in> set (blocks out)"
  shows "\<exists>i blk. b = structure_block (i, blk) \<and> blk \<noteq> []"
proof -
  from assms(1) obtain raw where raw: "group_lines_into_blocks (fj_lines data) 40 = Inr raw"
    and out: "blocks out = map structure_block (zip [1..<Suc (length raw)] raw)"
    by (auto simp: structure_ocr_def Let_def split: sum.splits)
  from raw have "[] \<notin> set raw"
    by (auto simp: group_lines_into_blocks_def group_loop_no_empty_block split: if_splits)
  moreover from assms(2) out obtain i blk where "b = structure_block (i, blk)"
    and "(i, blk) \<in> set (zip [1..<Suc (length raw)] raw)"
    by auto
  moreover then have "blk \<in> set raw"
    by (auto dest: set_zip_rightD)
  ultimately show ?thesis by auto
qed











section \<open>Theorems\<close>

text \<open>
  C1. If the enhanced (processed) variant has no recognised line, both arbiters choose the
  original, whatever the original's lines are: \<open>select_best_orange\<close> because it tests
  \<open>len(ext_p) > 0\<close> (also when either OCR call raised), \<open>select_best\<close> because the enhanced
  score is then 0 and the original's score, built from confidences in \<open>[0, 1]\<close>, is not
  negative.
\<close>

theorem enhanced_without_lines_chooses_original:
  assumes "fst (run_ocr_on_image result_p) = []"
    and "\<forall>l\<in>set (fst (run_ocr_on_image result_o)). 0 \<le> ln_conf l \<and> ln_conf l \<le> 1"
  shows "d_chosen (select_best result_o result_p) = ''original''
       \<and> d_chosen (select_best_orange any_o (Some result_p)) = ''original''
       \<and> d_chosen (select_best_orange any_o None) = ''original''"
proof -
  obtain ext_o conf_o text_o where o: "run_ocr_on_image result_o = (ext_o, conf_o, text_o)"
    by (cases "run_ocr_on_image result_o") auto
  have p: "run_ocr_on_image result_p = ([], 0, [])"
    using assms(1) by (rule run_ocr_on_image_no_lines)
  have "0 \<le> conf_o"
    using avg_conf_nonneg[of result_o] assms(2) o by simp
  also have "conf_o \<le> score_result conf_o (find_total_in_text text_o) (length ext_o)"
    by (rule score_result_ge)
  finally have so: "0 \<le> score_result conf_o (find_total_in_text text_o) (length ext_o)" .
  have sp: "score_result 0 None 0 = 0"
    by (simp add: score_result_def)
  have "d_chosen (select_best result_o result_p) = ''original''"
    using so by (simp add: select_best_def o p find_total_in_text_empty sp CONF_MARGIN_def)
  moreover have "d_chosen (select_best_orange any_o (Some result_p)) = ''original''"
    by (simp add: select_best_orange_def p Let_def split: prod.splits)
  moreover have "d_chosen (select_best_orange any_o None) = ''original''"
    by (simp add: select_best_orange_def Let_def split: prod.splits)
  ultimately show ?thesis by simp
qed

theorem enhanced_without_lines_chooses_original_witness:
  "fst (run_ocr_on_image [[]]) = []
   \<and> map ln_conf (fst (run_ocr_on_image
        [[([(0, 0), (50, 0), (50, 10), (0, 10)], ''TOTAL 10.00'', 0.9)]])) = [0.9]
   \<and> d_chosen (select_best
        [[([(0, 0), (50, 0), (50, 10), (0, 10)], ''TOTAL 10.00'', 0.9)]] [[]]) = ''original''
   \<and> d_chosen (select_best_orange None (Some [[]])) = ''original''
   \<and> d_chosen (select_best_orange None None) = ''original''"
proof -
  have h1: "fst (run_ocr_on_image [[]]) = []"
    by (simp add: run_ocr_on_image_def)
  have h2: "\<forall>l\<in>set (fst (run_ocr_on_image
        [[([(0, 0), (50, 0), (50, 10), (0, 10)], ''TOTAL 10.00'', 0.9)]])).
      0 \<le> ln_conf l \<and> ln_conf l \<le> 1"
    by (simp add: run_ocr_on_image_def)
  have h3: "map ln_conf (fst (run_ocr_on_image
        [[([(0, 0), (50, 0), (50, 10), (0, 10)], ''TOTAL 10.00'', 0.9)]])) = [0.9]"
    by (simp add: run_ocr_on_image_def)
  from enhanced_without_lines_chooses_original [OF h1 h2, of None] h1 h3
  show ?thesis by simp
qed

text \<open>
  C2 (as stated, refuted). The text below has the lines \<open>total 10.00\<close>, \<open>99.99\<close> and
  \<open>total\<close>. Its bottom-most keyword line, \<open>total\<close>, holds no amount; the function goes on to
  the keyword line \<open>total 10.00\<close> above it and returns \<open>10.00\<close>, not the fallback's \<open>99.99\<close>.
\<close>

theorem keyword_scan_continues_counterexample:
  "splitlines (''total 10.00'' @ [CHR 0x0A] @ ''99.99'' @ [CHR 0x0A] @ ''total'')
     = [''total 10.00'', ''99.99'', ''total'']
   \<and> has_keyword ''total'' \<and> amount_search ''total'' = None
   \<and> find_total_in_text (''total 10.00'' @ [CHR 0x0A] @ ''99.99'' @ [CHR 0x0A] @ ''total'')
     = Some ''10.00''
   \<and> largest_amount (''total 10.00'' @ [CHR 0x0A] @ ''99.99'' @ [CHR 0x0A] @ ''total'')
     = Some ''99.99''
   \<and> find_total_in_text (''total 10.00'' @ [CHR 0x0A] @ ''99.99'' @ [CHR 0x0A] @ ''total'')
     \<noteq> largest_amount (''total 10.00'' @ [CHR 0x0A] @ ''99.99'' @ [CHR 0x0A] @ ''total'')"
  by (simp add: total_eval rx_eval char_eval float_eval)

text \<open>
  C2 (amended). The scan is not abandoned at a keyword line without an amount: the result
  is the normalised amount of the bottom-most line that has both a keyword and an amount,
  whatever keyword lines without an amount lie below it; the fallback is reached only when
  no keyword line holds an amount.
\<close>

theorem keyword_scan_bottom_most_amount:
  "(splitlines t = pre @ [l] @ post \<and> has_keyword l \<and> amount_search l = Some (g, u)
      \<and> (\<forall>m\<in>set post. has_keyword m \<longrightarrow> amount_search m = None)
     \<longrightarrow> find_total_in_text t = Some (clean_amount g))
   \<and> ((\<forall>m\<in>set (splitlines t). has_keyword m \<longrightarrow> amount_search m = None)
     \<longrightarrow> find_total_in_text t = largest_amount t)"
proof (intro conjI impI)
  assume a: "splitlines t = pre @ [l] @ post \<and> has_keyword l
      \<and> amount_search l = Some (g, u)
      \<and> (\<forall>m\<in>set post. has_keyword m \<longrightarrow> amount_search m = None)"
  then have "\<forall>m\<in>set (rev post). has_keyword m \<longrightarrow> amount_search m = None"
    by simp
  then have "keyword_scan (rev post @ (l # rev pre)) = keyword_scan (l # rev pre)"
    by (rule keyword_scan_skip)
  moreover have "keyword_scan (l # rev pre) = Some (clean_amount g)"
    using a by simp
  moreover have "rev (splitlines t) = rev post @ (l # rev pre)"
    using a by simp
  ultimately show "find_total_in_text t = Some (clean_amount g)"
    by (simp add: find_total_in_text_def)
next
  assume "\<forall>m\<in>set (splitlines t). has_keyword m \<longrightarrow> amount_search m = None"
  then have "\<forall>m\<in>set (rev (splitlines t)). has_keyword m \<longrightarrow> amount_search m = None"
    by simp
  then have "keyword_scan (rev (splitlines t) @ []) = keyword_scan []"
    by (rule keyword_scan_skip)
  then show "find_total_in_text t = largest_amount t"
    by (simp add: find_total_in_text_def)
qed

theorem keyword_scan_bottom_most_amount_witness:
  "splitlines (''total 10.00'' @ [CHR 0x0A] @ ''99.99'' @ [CHR 0x0A] @ ''total'') = [''total 10.00'', ''99.99''] @ [''total''] @ []
   \<and> splitlines (''total 10.00'' @ [CHR 0x0A] @ ''99.99'' @ [CHR 0x0A] @ ''total'') = [] @ [''total 10.00''] @ [''99.99'', ''total'']
   \<and> has_keyword ''total 10.00'' \<and> amount_search ''total 10.00'' = Some (''10.00'', [])
   \<and> \<not> has_keyword ''99.99'' \<and> has_keyword ''total'' \<and> amount_search ''total'' = None
   \<and> find_total_in_text (''total 10.00'' @ [CHR 0x0A] @ ''99.99'' @ [CHR 0x0A] @ ''total'') = Some ''10.00''
   \<and> splitlines ''total 5.00 9.00'' = [''total 5.00 9.00'']
   \<and> splitlines (''5.00'' @ [CHR 0x0A] @ ''total'') = [''5.00'', ''total'']
   \<and> find_total_in_text (''5.00'' @ [CHR 0x0A] @ ''total'')
       = largest_amount (''5.00'' @ [CHR 0x0A] @ ''total'')
   \<and> largest_amount (''5.00'' @ [CHR 0x0A] @ ''total'') = Some ''5.0''"
proof -
  have s1: "splitlines (''total 10.00'' @ [CHR 0x0A] @ ''99.99'' @ [CHR 0x0A] @ ''total'') = [] @ [''total 10.00''] @ [''99.99'', ''total'']"
    by (simp add: total_eval char_eval)
  have k1: "has_keyword ''total 10.00''"
    by (simp add: total_eval char_eval)
  have a1: "amount_search ''total 10.00'' = Some (''10.00'', [])"
    by (simp add: rx_eval char_eval)
  have k2: "\<not> has_keyword ''99.99''"
    by (simp add: total_eval char_eval)
  have k3: "has_keyword ''total''"
    by (simp add: total_eval char_eval)
  have a3: "amount_search ''total'' = None"
    by (simp add: rx_eval char_eval)
  have c1: "clean_amount ''10.00'' = ''10.00''"
    by (simp add: total_eval)
  have s2: "splitlines (''5.00'' @ [CHR 0x0A] @ ''total'') = [''5.00'', ''total'']"
    by (simp add: total_eval char_eval)
  have k4: "\<not> has_keyword ''5.00''"
    by (simp add: total_eval char_eval)
  have l2: "largest_amount (''5.00'' @ [CHR 0x0A] @ ''total'') = Some ''5.0''"
    by (simp add: total_eval rx_eval char_eval float_eval)
  have s3: "splitlines ''total 5.00 9.00'' = [''total 5.00 9.00'']"
    by (simp add: total_eval char_eval)
  from keyword_scan_bottom_most_amount
         [of "''total 10.00'' @ [CHR 0x0A] @ ''99.99'' @ [CHR 0x0A] @ ''total''" "[]" "''total 10.00''" "[''99.99'', ''total'']" "''10.00''" "[]"]
       s1 k1 a1 k2 k3 a3 c1
  have r1: "find_total_in_text (''total 10.00'' @ [CHR 0x0A] @ ''99.99'' @ [CHR 0x0A] @ ''total'') = Some ''10.00''"
    by simp
  from keyword_scan_bottom_most_amount
         [of "''5.00'' @ [CHR 0x0A] @ ''total''" "[]" "[]" "[]" "[]" "[]"]
       s2 k4 k3 a3
  have r2: "find_total_in_text (''5.00'' @ [CHR 0x0A] @ ''total'')
       = largest_amount (''5.00'' @ [CHR 0x0A] @ ''total'')"
    by simp
  from s1 k1 a1 k2 k3 a3 r1 s2 s3 r2 l2 show ?thesis by simp
qed

text \<open>
  C3. In the fallback branch (the keyword scan returned nothing), when there is a match and
  no normalised match parses as a float, the result is the last normalised match; and the
  function returns \<open>None\<close> only for a text without any match of the amount pattern (the
  fallback returns \<open>None\<close> exactly then).
\<close>

theorem fallback_last_raw_match:
  "(keyword_scan (rev (splitlines t)) = None \<and> findall t \<noteq> []
      \<and> (\<forall>x\<in>set (map clean_amount (findall t)). py_float x = None)
     \<longrightarrow> find_total_in_text t = Some (last (map clean_amount (findall t))))
   \<and> (find_total_in_text t = None \<longrightarrow> findall t = [])
   \<and> (largest_amount t = None \<longleftrightarrow> findall t = [])"
proof (intro conjI impI)
  assume a: "keyword_scan (rev (splitlines t)) = None \<and> findall t \<noteq> []
      \<and> (\<forall>x\<in>set (map clean_amount (findall t)). py_float x = None)"
  then have "those (map py_float (map clean_amount (findall t))) = None"
    by (intro those_all_None) simp_all
  with a show "find_total_in_text t = Some (last (map clean_amount (findall t)))"
    by (simp add: find_total_in_text_def largest_amount_def Let_def)
next
  show l: "largest_amount t = None \<longleftrightarrow> findall t = []"
    by (simp add: largest_amount_def Let_def split: option.splits)
  assume "find_total_in_text t = None"
  then have "largest_amount t = None"
    by (simp add: find_total_in_text_def Let_def split: option.splits)
  with l show "findall t = []" by simp
qed

theorem fallback_last_raw_match_witness:
  "keyword_scan (rev (splitlines ''9.00 1,234.56'')) = None
   \<and> findall ''9.00 1,234.56'' = [''9.00'', ''1,234.56'']
   \<and> map clean_amount (findall ''9.00 1,234.56'') = [''9.00'', ''1.234.56'']
   \<and> py_float ''1.234.56'' = None
   \<and> find_total_in_text ''1,234.56'' = Some ''1.234.56''
   \<and> find_total_in_text ''9.00 1,234.56'' = Some ''1.234.56''
   \<and> find_total_in_text ''no amount'' = None \<and> findall ''no amount'' = []
   \<and> largest_amount ''no amount'' = None"
proof -
  have k: "keyword_scan (rev (splitlines ''1,234.56'')) = None"
    by (simp add: total_eval char_eval)
  have f: "findall ''1,234.56'' = [''1,234.56'']"
    by (simp add: total_eval rx_eval char_eval)
  have c: "clean_amount ''1,234.56'' = ''1.234.56''"
    by (simp add: total_eval)
  have p: "py_float ''1.234.56'' = None"
    by (simp add: float_eval char_eval)
  have n: "find_total_in_text ''no amount'' = None"
    by (simp add: total_eval rx_eval char_eval)
  have k2: "keyword_scan (rev (splitlines ''9.00 1,234.56'')) = None"
    by (simp add: total_eval char_eval)
  have f2: "findall ''9.00 1,234.56'' = [''9.00'', ''1,234.56'']"
    by (simp add: total_eval rx_eval char_eval)
  have c2: "clean_amount ''9.00'' = ''9.00''"
    by (simp add: total_eval)
  have r2: "find_total_in_text ''9.00 1,234.56'' = Some ''1.234.56''"
    by (simp add: total_eval rx_eval char_eval float_eval)
  from fallback_last_raw_match [of "''1,234.56''"] k f c p
  have r: "find_total_in_text ''1,234.56'' = Some ''1.234.56''"
    by simp
  from fallback_last_raw_match [of "''no amount''"] n
  have e: "findall ''no amount'' = [] \<and> largest_amount ''no amount'' = None"
    by simp
  from k2 f2 c c2 p r r2 n e show ?thesis by simp
qed




text \<open>
  C4 (as stated, refuted). \<open>normalize_date("5-3-99")\<close> is \<open>2099-03-05\<close>, not \<open>1999-03-05\<close>:
  a two-digit year is prefixed with \<open>20\<close>.
\<close>

theorem normalize_date_two_digit_year_counterexample:
  "normalize_date ''5-3-99'' \<noteq> Some ''1999-03-05''"
  by (simp add: norm_eval rx_match_eqs char_eval)

text \<open>
  C4 (amended). \<open>normalize_date("15/01/2024")\<close> is \<open>2024-01-15\<close> and
  \<open>normalize_date("5-3-99")\<close> is \<open>2099-03-05\<close>: day first, components padded to two digits,
  a two-digit year prefixed with \<open>20\<close>.
\<close>

theorem normalize_date_examples:
  "normalize_date ''15/01/2024'' = Some ''2024-01-15''
   \<and> normalize_date ''5-3-99'' = Some ''2099-03-05''"
  by (simp add: norm_eval rx_match_eqs char_eval)

text \<open>
  C6. \<open>normalize_amount\<close> on the four examples; and the rule behind them, on the string
  left after currency signs, capitals and white space are removed: when a comma is the last
  separator and a dot comes before it, the dots are dropped and the comma becomes the decimal
  point; when a dot is the last separator and a comma comes before it, the commas are
  dropped; with commas only, the last comma becomes the decimal point if at most two
  characters follow it, and the commas are dropped otherwise.
\<close>

theorem normalize_amount_separators:
  "normalize_amount ''1.200,50'' = Some (Finite 1200.50)
   \<and> normalize_amount ''1,200.50'' = Some (Finite 1200.50)
   \<and> normalize_amount ''100,50'' = Some (Finite 100.50)
   \<and> normalize_amount ''1,200'' = Some (Finite 1200.0)
   \<and> (CHR ''.'' \<in> set a \<and> CHR '','' \<notin> set b \<and> CHR ''.'' \<notin> set b \<longrightarrow>
        resolve_separators (a @ CHR '','' # b)
        = replace_char (CHR '','') ''.'' (replace_char (CHR ''.'') [] a) @ CHR ''.'' # b)
   \<and> (CHR '','' \<in> set a \<and> CHR '','' \<notin> set b \<and> CHR ''.'' \<notin> set b \<longrightarrow>
        resolve_separators (a @ CHR ''.'' # b) = replace_char (CHR '','') [] a @ CHR ''.'' # b)
   \<and> (CHR ''.'' \<notin> set a \<and> CHR '','' \<notin> set b \<and> CHR ''.'' \<notin> set b \<longrightarrow>
        resolve_separators (a @ CHR '','' # b)
        = (if length b \<le> 2 then replace_char (CHR '','') ''.'' a @ CHR ''.'' # b
           else replace_char (CHR '','') [] a @ b))"
proof (intro conjI impI)
  show "normalize_amount ''1.200,50'' = Some (Finite 1200.50)"
    by (simp add: norm_eval float_eval char_eval)
  show "normalize_amount ''1,200.50'' = Some (Finite 1200.50)"
    by (simp add: norm_eval float_eval char_eval)
  show "normalize_amount ''100,50'' = Some (Finite 100.50)"
    by (simp add: norm_eval float_eval char_eval)
  show "normalize_amount ''1,200'' = Some (Finite 1200.0)"
    by (simp add: norm_eval float_eval char_eval)
next
  assume "CHR ''.'' \<in> set a \<and> CHR '','' \<notin> set b \<and> CHR ''.'' \<notin> set b"
  then show "resolve_separators (a @ CHR '','' # b)
        = replace_char (CHR '','') ''.'' (replace_char (CHR ''.'') [] a) @ CHR ''.'' # b"
    by (intro resolve_comma_last) simp_all
next
  assume "CHR '','' \<in> set a \<and> CHR '','' \<notin> set b \<and> CHR ''.'' \<notin> set b"
  then show "resolve_separators (a @ CHR ''.'' # b)
        = replace_char (CHR '','') [] a @ CHR ''.'' # b"
    by (intro resolve_dot_last) simp_all
next
  assume "CHR ''.'' \<notin> set a \<and> CHR '','' \<notin> set b \<and> CHR ''.'' \<notin> set b"
  then show "resolve_separators (a @ CHR '','' # b)
        = (if length b \<le> 2 then replace_char (CHR '','') ''.'' a @ CHR ''.'' # b
           else replace_char (CHR '','') [] a @ b)"
    by (intro resolve_comma_only) simp_all
qed

theorem normalize_amount_separators_witness:
  "resolve_separators ''1.200,50'' = ''1200.50''
   \<and> resolve_separators ''1,200.50'' = ''1200.50''
   \<and> resolve_separators ''100,50'' = ''100.50''
   \<and> resolve_separators ''1,200'' = ''1200''
   \<and> py_float ''1200.50'' = Some (Finite 1200.50)
   \<and> py_float ''100.50'' = Some (Finite 100.50)
   \<and> py_float ''1200'' = Some (Finite 1200)"
proof -
  have e1: "''1.200,50'' = ''1.200'' @ CHR '','' # ''50''" by simp
  have e2: "''1,200.50'' = ''1,200'' @ CHR ''.'' # ''50''" by simp
  have e3: "''100,50'' = ''100'' @ CHR '','' # ''50''" by simp
  have e4: "''1,200'' = ''1'' @ CHR '','' # ''200''" by simp
  have r1: "resolve_separators ''1.200,50'' = ''1200.50''"
    unfolding e1 using normalize_amount_separators [of "''1.200''" "''50''"]
    by (simp add: replace_char_def)
  have r2: "resolve_separators ''1,200.50'' = ''1200.50''"
    unfolding e2 using normalize_amount_separators [of "''1,200''" "''50''"]
    by (simp add: replace_char_def)
  have r3: "resolve_separators ''100,50'' = ''100.50''"
    unfolding e3 using normalize_amount_separators [of "''100''" "''50''"]
    by (simp add: replace_char_def)
  have r4: "resolve_separators ''1,200'' = ''1200''"
    unfolding e4 using normalize_amount_separators [of "''1''" "''200''"]
    by (simp add: replace_char_def)
  have p1: "py_float ''1200.50'' = Some (Finite 1200.50)"
    by (simp add: float_eval char_eval)
  have p2: "py_float ''100.50'' = Some (Finite 100.50)"
    by (simp add: float_eval char_eval)
  have p3: "py_float ''1200'' = Some (Finite 1200)"
    by (simp add: float_eval char_eval)
  from r1 r2 r3 r4 p1 p2 p3 show ?thesis by simp
qed

text \<open>
  C7. For lines whose boxes have points, \<open>group_lines_into_blocks\<close> returns blocks that,
  put end to end, are the lines sorted by top-y (stably); no block is empty; inside a block
  each line's top is less than \<open>y_gap\<close> below the bottom of the line before it; and each
  block's first line is at least \<open>y_gap\<close> below the bottom of the last line of the block
  before it. So a line joins the open block iff its gap is strictly less than \<open>y_gap\<close>.
  With the default \<open>y_gap = 40\<close>: lines with tops 10 and 20, the first with bottom 30
  (gap -10), share a block, and a third line with top 100 (gap 70) starts a new one.
\<close>

theorem group_lines_into_blocks_gap_rule:
  "((\<forall>l\<in>set lines. ln_box l \<noteq> []) \<longrightarrow>
      (\<exists>bs. group_lines_into_blocks lines g = Inr bs
          \<and> concat bs = sort_key (\<lambda>l. bbox_top (ln_box l)) lines
          \<and> sorted (map (\<lambda>l. bbox_top (ln_box l)) (concat bs))
          \<and> set (concat bs) = set lines \<and> length (concat bs) = length lines
          \<and> [] \<notin> set bs \<and> (\<forall>b\<in>set bs. within_gap g b) \<and> blocks_apart g bs))
   \<and> gap_between line_top_10 line_top_20 = - 10
   \<and> gap_between line_top_20 line_top_100 = 70
   \<and> group_lines_into_blocks [line_top_10, line_top_20, line_top_100] 40
     = Inr [[line_top_10, line_top_20], [line_top_100]]"
proof (intro conjI impI)
  assume a: "\<forall>l\<in>set lines. ln_box l \<noteq> []"
  let ?sorted = "sort_key (\<lambda>l. bbox_top (ln_box l)) lines"
  let ?bs = "group_loop g ?sorted [] []"
  from a have "group_lines_into_blocks lines g = Inr ?bs"
    by (simp add: group_lines_into_blocks_def)
  moreover have c: "concat ?bs = ?sorted"
    by (simp add: group_loop_concat)
  moreover have "sorted (map (\<lambda>l. bbox_top (ln_box l)) (concat ?bs))"
    unfolding c by (rule sorted_sort_key)
  moreover have "set (concat ?bs) = set lines"
    unfolding c by (rule set_sort)
  moreover have "length (concat ?bs) = length lines"
    unfolding c by (rule length_sort)
  moreover have "[] \<notin> set ?bs"
    by (rule group_loop_no_empty_block) simp
  moreover have "\<forall>b\<in>set ?bs. within_gap g b"
    by (rule group_loop_within_gap) simp_all
  moreover have "blocks_apart g ?bs"
    by (rule group_loop_blocks_apart) simp_all
  ultimately show "\<exists>bs. group_lines_into_blocks lines g = Inr bs
          \<and> concat bs = sort_key (\<lambda>l. bbox_top (ln_box l)) lines
          \<and> sorted (map (\<lambda>l. bbox_top (ln_box l)) (concat bs))
          \<and> set (concat bs) = set lines \<and> length (concat bs) = length lines
          \<and> [] \<notin> set bs \<and> (\<forall>b\<in>set bs. within_gap g b) \<and> blocks_apart g bs"
    by blast
next
  show "gap_between line_top_10 line_top_20 = - 10"
    by (simp add: struct_eval)
  show "gap_between line_top_20 line_top_100 = 70"
    by (simp add: struct_eval)
  show "group_lines_into_blocks [line_top_10, line_top_20, line_top_100] 40 = Inr [[line_top_10, line_top_20], [line_top_100]]"
    by (simp add: struct_eval)
qed

theorem group_lines_into_blocks_gap_rule_witness:
  "ln_box line_top_10 \<noteq> [] \<and> ln_box line_top_20 \<noteq> [] \<and> ln_box line_top_100 \<noteq> []
   \<and> group_lines_into_blocks [line_top_100, line_top_10, line_top_20] 40
     = Inr [[line_top_10, line_top_20], [line_top_100]]
   \<and> sort_key (\<lambda>l. bbox_top (ln_box l)) [line_top_100, line_top_10, line_top_20]
     = [line_top_10, line_top_20, line_top_100]
   \<and> within_gap 40 [line_top_10, line_top_20]
   \<and> within_gap 40 [line_top_100]
   \<and> blocks_apart 40 [[line_top_10, line_top_20], [line_top_100]]"
proof -
  have h: "\<forall>l\<in>set [line_top_100, line_top_10, line_top_20]. ln_box l \<noteq> []"
    by simp
  have e: "group_lines_into_blocks [line_top_100, line_top_10, line_top_20] 40 = Inr [[line_top_10, line_top_20], [line_top_100]]"
    by (simp add: struct_eval)
  from group_lines_into_blocks_gap_rule [of "[line_top_100, line_top_10, line_top_20]" 40] h
  obtain bs where bs: "group_lines_into_blocks [line_top_100, line_top_10, line_top_20] 40 = Inr bs"
    and c: "concat bs = sort_key (\<lambda>l. bbox_top (ln_box l)) [line_top_100, line_top_10, line_top_20]"
    and w: "\<forall>b\<in>set bs. within_gap 40 b" and ap: "blocks_apart 40 bs"
    by blast
  from bs e have eq: "bs = [[line_top_10, line_top_20], [line_top_100]]"
    by (simp only: sum.inject)
  from c have s: "sort_key (\<lambda>l. bbox_top (ln_box l)) [line_top_100, line_top_10, line_top_20] = [line_top_10, line_top_20, line_top_100]"
    unfolding eq by simp
  from w have w1: "within_gap 40 [line_top_10, line_top_20]" and w2: "within_gap 40 [line_top_100]"
    unfolding eq by simp_all
  from ap have a: "blocks_apart 40 [[line_top_10, line_top_20], [line_top_100]]"
    unfolding eq .
  from e s w1 w2 a show ?thesis by simp
qed

text \<open>
  C8. In the result of \<open>structure_ocr\<close> every block has lines, and its \<open>bbox\<close> is
  \<open>[min left, min top, max right, max bottom]\<close> over the \<open>bbox\<close> entries of its lines; a
  block with the line boxes \<open>[0,0,10,10]\<close> and \<open>[5,5,20,20]\<close> has the box \<open>[0,0,20,20]\<close>.
\<close>

theorem block_bbox_is_union_of_line_bboxes:
  "(structure_ocr data = Inr out \<and> b \<in> set (blocks out) \<longrightarrow>
      b_lines b \<noteq> []
      \<and> bbox b = [Min (set (map (\<lambda>l. sl_bbox l ! 0) (b_lines b))),
                  Min (set (map (\<lambda>l. sl_bbox l ! 1) (b_lines b))),
                  Max (set (map (\<lambda>l. sl_bbox l ! 2) (b_lines b))),
                  Max (set (map (\<lambda>l. sl_bbox l ! 3) (b_lines b)))])
   \<and> map_sum id (\<lambda>out. map (\<lambda>b. (bbox b, map sl_bbox (b_lines b))) (blocks out))
        (structure_ocr \<lparr>fj_lines = [line_box_0_10, line_box_5_20], fj_avg_conf = Some 0.85,
                        fj_chosen = Some ''original''\<rparr>)
      = Inr [([0, 0, 20, 20], [[0, 0, 10, 10], [5, 5, 20, 20]])]"
proof (intro conjI impI)
  assume a: "structure_ocr data = Inr out \<and> b \<in> set (blocks out)"
  then obtain i blk where b: "b = structure_block (i, blk)" and ne: "blk \<noteq> []"
    using structure_ocr_blocks[of data out b] by blast
  let ?q = "\<lambda>l. [bbox_left (ln_box l), bbox_top (ln_box l), bbox_right (ln_box l),
                  bbox_bottom (ln_box l)]"
  have m: "map sl_bbox (b_lines b) = map ?q blk"
    unfolding b using structure_block_fields[of i blk] by simp
  have k: "map (\<lambda>l. sl_bbox l ! k) (b_lines b) = map (\<lambda>l. ?q l ! k) blk" for k
  proof -
    have "map (\<lambda>l. sl_bbox l ! k) (b_lines b) = map (\<lambda>x. x ! k) (map sl_bbox (b_lines b))"
      by (simp add: comp_def)
    also have "\<dots> = map (\<lambda>l. ?q l ! k) blk"
      unfolding m by (simp add: comp_def)
    finally show ?thesis .
  qed
  from m ne show "b_lines b \<noteq> []" by auto
  have u: "bbox b = bbox_union (map ln_box blk)"
    unfolding b using structure_block_fields[of i blk] by simp
  show "bbox b = [Min (set (map (\<lambda>l. sl_bbox l ! 0) (b_lines b))),
                  Min (set (map (\<lambda>l. sl_bbox l ! 1) (b_lines b))),
                  Max (set (map (\<lambda>l. sl_bbox l ! 2) (b_lines b))),
                  Max (set (map (\<lambda>l. sl_bbox l ! 3) (b_lines b)))]"
    unfolding u k bbox_union_def using ne
    by (simp add: min_of_Min max_of_Max comp_def)
next
  show "map_sum id (\<lambda>out. map (\<lambda>b. (bbox b, map sl_bbox (b_lines b))) (blocks out))
        (structure_ocr \<lparr>fj_lines = [line_box_0_10, line_box_5_20], fj_avg_conf = Some 0.85,
                        fj_chosen = Some ''original''\<rparr>)
      = Inr [([0, 0, 20, 20], [[0, 0, 10, 10], [5, 5, 20, 20]])]"
    by (simp add: struct_eval)
qed

theorem block_bbox_is_union_of_line_bboxes_witness:
  "structure_ocr \<lparr>fj_lines = [line_box_0_10, line_box_5_20], fj_avg_conf = Some 0.85,
                  fj_chosen = Some ''original''\<rparr>
   = Inr \<lparr>blocks = [\<lparr>block_id = 1, bbox = [0, 0, 20, 20],
             b_lines = [\<lparr>line_id = 1, sl_text = ''a'', sl_bbox = [0, 0, 10, 10],
                          confidence = 0.9\<rparr>,
                        \<lparr>line_id = 2, sl_text = ''b'', sl_bbox = [5, 5, 20, 20],
                          confidence = 0.8\<rparr>]\<rparr>],
          meta_avg_conf = Some 0.85, meta_lines_count = 2, meta_blocks_count = 1,
          meta_chosen_source = Some ''original''\<rparr>
   \<and> [0, 0, 20, 20] = [Min (set [0, 5 :: real]), Min (set [0, 5 :: real]),
                        Max (set [10, 20 :: real]), Max (set [10, 20 :: real])]"
proof -
  let ?b = "\<lparr>block_id = 1, bbox = [0, 0, 20, 20],
             b_lines = [\<lparr>line_id = 1, sl_text = ''a'', sl_bbox = [0, 0, 10, 10],
                          confidence = 0.9\<rparr>,
                        \<lparr>line_id = 2, sl_text = ''b'', sl_bbox = [5, 5, 20, 20],
                          confidence = 0.8\<rparr>]\<rparr>"
  let ?out = "\<lparr>blocks = [?b], meta_avg_conf = Some 0.85, meta_lines_count = 2,
          meta_blocks_count = 1, meta_chosen_source = Some ''original''\<rparr>"
  let ?data = "\<lparr>fj_lines = [line_box_0_10, line_box_5_20], fj_avg_conf = Some 0.85,
                  fj_chosen = Some ''original''\<rparr>"
  have e: "structure_ocr ?data = Inr ?out"
    by (simp add: struct_eval)
  have i: "?b \<in> set (blocks ?out)"
    by simp
  from block_bbox_is_union_of_line_bboxes [of ?data ?out ?b] e i
  have "bbox ?b = [Min (set (map (\<lambda>l. sl_bbox l ! 0) (b_lines ?b))),
                  Min (set (map (\<lambda>l. sl_bbox l ! 1) (b_lines ?b))),
                  Max (set (map (\<lambda>l. sl_bbox l ! 2) (b_lines ?b))),
                  Max (set (map (\<lambda>l. sl_bbox l ! 3) (b_lines ?b)))]"
    by blast
  then have "[0, 0, 20, 20] = [Min (set [0, 5 :: real]), Min (set [0, 5 :: real]),
                        Max (set [10, 20 :: real]), Max (set [10, 20 :: real])]"
    by simp
  with e show ?thesis by blast
qed

text \<open>
  C10. When as many French as English keywords occur in the normalised text, and at least
  one does, \<open>detect_language\<close> returns \<open>fr\<close>: the scores are listed with \<open>fr\<close> first and the
  maximum is the first item that no later item exceeds.
\<close>

theorem detect_language_tie_is_fr:
  "count_hits french_keywords (map strip_accent_char (lower t))
     = count_hits english_keywords (map strip_accent_char (lower t))
   \<and> 0 < count_hits french_keywords (map strip_accent_char (lower t))
   \<longrightarrow> detect_language t = ''fr''"
  by (simp add: detect_language_def max_by_value_def Let_def)

theorem detect_language_tie_is_fr_witness:
  "count_hits french_keywords (map strip_accent_char (lower ''Facture / Invoice'')) = 1
   \<and> count_hits english_keywords (map strip_accent_char (lower ''Facture / Invoice'')) = 1
   \<and> detect_language ''Facture / Invoice'' = ''fr''"
proof -
  have f: "count_hits french_keywords (map strip_accent_char (lower ''Facture / Invoice'')) = 1"
    by (simp add: lang_eval char_eval)
  have e: "count_hits english_keywords (map strip_accent_char (lower ''Facture / Invoice'')) = 1"
    by (simp add: lang_eval char_eval)
  from detect_language_tie_is_fr [of "''Facture / Invoice''"] f e
  have "detect_language ''Facture / Invoice'' = ''fr''"
    by simp
  with f e show ?thesis by simp
qed

text \<open>
  C9. The score is the average confidence, plus 0.05 when a total was detected, plus
  \<open>min (line_count / 100) 0.05\<close>; and for a fixed detected total and line count, a larger
  average confidence never gives a smaller score.
\<close>

theorem score_result_monotone:
  "score_result c tot n
     = c + (if tot = None then 0 else 0.05) + min (real n / 100) 0.05
   \<and> (c1 \<le> c2 \<longrightarrow> score_result c1 tot n \<le> score_result c2 tot n)"
  by (simp add: score_result_def Let_def)

theorem score_result_monotone_witness:
  "(0.5::real) \<le> 0.9
   \<and> score_result 0.5 (Some ''12.00'') 3 = 0.58
   \<and> score_result 0.9 (Some ''12.00'') 3 = 0.98
   \<and> score_result 0.5 (Some ''12.00'') 3 \<le> score_result 0.9 (Some ''12.00'') 3"
  using score_result_monotone [of "0.5" "Some ''12.00''" 3 "0.5" "0.9"]
        score_result_monotone [of "0.9" "Some ''12.00''" 3 "0.5" "0.9"]
  by simp

end
